theory Spec2Isabelle
  imports Complex_Main
begin

section \<open>Synthetic competing risks and theoretical cumulative incidence\<close>

text \<open>
  A shallow embedding of \<^verbatim>\<open>examples/plot_marginal_cumulative_incidence_estimation.py\<close>:
  the synthetic competing-risks generator (lines 32 to 80) and the numerical integration
  of the Weibull hazards into survival and cumulative incidence curves (lines 96 to 137).

  A finite float64 value is a real number, and the non-finite values that numpy produces
  (\<open>inf\<close>, \<open>-inf\<close>, \<open>nan\<close>) are constructors of their own, so that the singular point of
  the hazard at time zero and the overflow of an operation are part of the model: a
  result too large for float64 becomes an infinity. Rounding below that magnitude
  (underflow to zero included) and the sign of zero are not modelled. Python exceptions
  are values of a sum type. The two estimators fitted on the dataset and the drawing of
  the figure (lines 135 and 138 to 169) are outside the model; of the figure, the model
  keeps the creation of the axes and the iteration over them (lines 108 and 136).
\<close>

subsection \<open>Values, errors and numpy arithmetic\<close>

datatype py_error =
  KeyError | TypeError | ValueError | IndexError | ZeroDivisionError | FloatingPointError

datatype npfloat = Finite real | PosInf | NegInf | NaN

text \<open>
  Round-to-nearest sends every result of magnitude \<open>2^1024 - 2^970\<close> or more to an
  infinity: the largest finite float64 is \<open>2^1024 - 2^971\<close>.
\<close>

definition overflow_threshold :: real where
  "overflow_threshold = 2 ^ 1024 - 2 ^ 970"

definition overflow :: "real \<Rightarrow> npfloat" where
  "overflow x =
     (if overflow_threshold \<le> x then PosInf
      else if x \<le> - overflow_threshold then NegInf
      else Finite x)"

text \<open>IEEE addition, multiplication, negation and exponential on the extended values.\<close>

fun np_add :: "npfloat \<Rightarrow> npfloat \<Rightarrow> npfloat" where
  "np_add (Finite a) (Finite b) = overflow (a + b)"
| "np_add NaN _ = NaN"
| "np_add _ NaN = NaN"
| "np_add PosInf NegInf = NaN"
| "np_add NegInf PosInf = NaN"
| "np_add PosInf _ = PosInf"
| "np_add _ PosInf = PosInf"
| "np_add NegInf _ = NegInf"
| "np_add _ NegInf = NegInf"

fun np_sign_inf :: "bool \<Rightarrow> npfloat" where
  "np_sign_inf positive = (if positive then PosInf else NegInf)"

fun np_mul :: "npfloat \<Rightarrow> npfloat \<Rightarrow> npfloat" where
  "np_mul (Finite a) (Finite b) = overflow (a * b)"
| "np_mul NaN _ = NaN"
| "np_mul _ NaN = NaN"
| "np_mul (Finite a) PosInf = (if a = 0 then NaN else np_sign_inf (0 < a))"
| "np_mul (Finite a) NegInf = (if a = 0 then NaN else np_sign_inf (a < 0))"
| "np_mul PosInf (Finite b) = (if b = 0 then NaN else np_sign_inf (0 < b))"
| "np_mul NegInf (Finite b) = (if b = 0 then NaN else np_sign_inf (b < 0))"
| "np_mul PosInf PosInf = PosInf"
| "np_mul NegInf NegInf = PosInf"
| "np_mul PosInf NegInf = NegInf"
| "np_mul NegInf PosInf = NegInf"

fun np_neg :: "npfloat \<Rightarrow> npfloat" where
  "np_neg (Finite a) = Finite (- a)"
| "np_neg PosInf = NegInf"
| "np_neg NegInf = PosInf"
| "np_neg NaN = NaN"

fun np_exp :: "npfloat \<Rightarrow> npfloat" where
  "np_exp (Finite a) = overflow (exp a)"
| "np_exp PosInf = PosInf"
| "np_exp NegInf = Finite 0"
| "np_exp NaN = NaN"

text \<open>
  The handling of the floating-point divide-by-zero signal, as set by \<^verbatim>\<open>np.errstate\<close>:
  only \<open>Raise\<close> turns the signal into a \<^verbatim>\<open>FloatingPointError\<close>. Overflow is another
  signal, which numpy only warns about by default.
\<close>

datatype np_err_mode = Ignore | Warn | Raise

text \<open>
  \<^verbatim>\<open>x ** y\<close> on one element: the value, and whether the operation signals
  divide-by-zero. Any base to the power zero is 1; a zero base with a negative exponent
  signals and gives \<open>inf\<close>; a negative base with a fractional exponent gives \<open>nan\<close>; a
  power too large overflows.
\<close>

definition odd_integer :: "real \<Rightarrow> bool" where
  "odd_integer y \<longleftrightarrow> y = of_int \<lfloor>y\<rfloor> \<and> odd \<lfloor>y\<rfloor>"

definition float_power :: "npfloat \<Rightarrow> real \<Rightarrow> npfloat \<times> bool" where
  "float_power b y =
     (if y = 0 then (Finite 1, False)
      else case b of
        NaN \<Rightarrow> (NaN, False)
      | PosInf \<Rightarrow> (if 0 < y then PosInf else Finite 0, False)
      | NegInf \<Rightarrow>
          (if 0 < y then (if odd_integer y then NegInf else PosInf) else Finite 0, False)
      | Finite x \<Rightarrow>
          if 0 < x then (overflow (x powr y), False)
          else if x = 0 then (if 0 < y then (Finite 0, False) else (PosInf, True))
          else if y = of_int \<lfloor>y\<rfloor> then (overflow (x powi \<lfloor>y\<rfloor>), False)
          else (NaN, False))"

definition np_power :: "np_err_mode \<Rightarrow> npfloat \<Rightarrow> real \<Rightarrow> py_error + npfloat" where
  "np_power mode b y =
     (case float_power b y of
        (v, signalled) \<Rightarrow>
          if signalled \<and> mode = Raise then Inl FloatingPointError else Inr v)"

text \<open>The first exception of a sequence of computations, in their order, or all results.\<close>

fun collect :: "('e + 'a) list \<Rightarrow> 'e + 'a list" where
  "collect [] = Inr []"
| "collect (Inl e # _) = Inl e"
| "collect (Inr v # rs) = (case collect rs of Inl e \<Rightarrow> Inl e | Inr vs \<Rightarrow> Inr (v # vs))"

subsection \<open>The hazard function (lines 96 to 104)\<close>

text \<open>
  \<^verbatim>\<open>np.where(t == 0, 0.0, (shape / scale) * (t / scale) ** (shape - 1.0))\<close> under
  \<^verbatim>\<open>np.errstate(divide="ignore")\<close>. Both branches are computed for every element, then
  \<^verbatim>\<open>np.where\<close> selects. \<open>shape\<close> and \<open>scale\<close> are Python numbers, so \<open>shape / scale\<close> raises
  \<^verbatim>\<open>ZeroDivisionError\<close> for a zero scale before any array operation runs; a quotient too
  large is \<open>inf\<close>, in Python as in numpy.
\<close>

definition weibull_hazard :: "real list \<Rightarrow> real \<Rightarrow> real \<Rightarrow> py_error + npfloat list" where
  "weibull_hazard t shape scale =
     (if scale = 0 then Inl ZeroDivisionError
      else case collect (map (\<lambda>ti. np_power Ignore (overflow (ti / scale)) (shape - 1)) t) of
        Inl e \<Rightarrow> Inl e
      | Inr powers \<Rightarrow>
          Inr (map2 (\<lambda>ti p. if ti = 0 then Finite 0 else np_mul (overflow (shape / scale)) p)
                 t powers))"

text \<open>
  A cause is a Python dict with numeric values; the call \<^verbatim>\<open>weibull_hazard(t, **dist)\<close>
  binds \<open>shape\<close> and \<open>scale\<close> from the dict (default \<open>1.0\<close>), sends every other key to
  \<^verbatim>\<open>**ignored_kwargs\<close>, and raises \<^verbatim>\<open>TypeError\<close> when the dict has a key \<open>t\<close>.
\<close>

type_synonym dist = "string \<rightharpoonup> real"

definition kwarg :: "dist \<Rightarrow> string \<Rightarrow> real \<Rightarrow> real" where
  "kwarg d k dflt = (case d k of None \<Rightarrow> dflt | Some v \<Rightarrow> v)"

definition weibull_hazard_kw :: "real list \<Rightarrow> dist \<Rightarrow> py_error + npfloat list" where
  "weibull_hazard_kw t d =
     (if d ''t'' \<noteq> None then Inl TypeError
      else weibull_hazard t (kwarg d ''shape'' 1) (kwarg d ''scale'' 1))"

subsection \<open>The hazard integrator (lines 108, 121 to 128, 136 and 137)\<close>

text \<open>
  \<^verbatim>\<open>np.linspace(start, stop, num)\<close>: \<open>num\<close> evenly spaced points from \<open>start\<close> to \<open>stop\<close>,
  both included. The source calls it with \<open>start = 0\<close>, where no intermediate value
  exceeds \<open>stop\<close> in magnitude, so nothing overflows. \<^verbatim>\<open>np.diff\<close>: the differences of
  consecutive elements, one fewer than the elements.
\<close>

definition linspace :: "real \<Rightarrow> real \<Rightarrow> nat \<Rightarrow> real list" where
  "linspace start stop num =
     (if num = 1 then [start]
      else map (\<lambda>i. start + real i * ((stop - start) / real (num - 1))) [0..<num])"

definition np_diff :: "real list \<Rightarrow> npfloat list" where
  "np_diff a = map (\<lambda>i. overflow (a ! Suc i - a ! i)) [0..<length a - 1]"

text \<open>\<^verbatim>\<open>np.stack\<close> refuses an empty list and arrays of different lengths.\<close>

definition np_stack :: "'a list list \<Rightarrow> py_error + 'a list list" where
  "np_stack arrays =
     (case arrays of
        [] \<Rightarrow> Inl ValueError
      | a # as \<Rightarrow>
          if list_all (\<lambda>b. length b = length a) as then Inr arrays else Inl ValueError)"

text \<open>\<^verbatim>\<open>.sum(axis=0)\<close>: the rows are added one after the other, element by element.\<close>

definition sum_axis0 :: "npfloat list list \<Rightarrow> npfloat list" where
  "sum_axis0 rows = (case rows of [] \<Rightarrow> [] | r # rs \<Rightarrow> foldl (map2 np_add) r rs)"

text \<open>\<^verbatim>\<open>.cumsum(axis=-1)\<close>: the running sum, left to right.\<close>

fun cumsum_from :: "npfloat \<Rightarrow> npfloat list \<Rightarrow> npfloat list" where
  "cumsum_from acc [] = []"
| "cumsum_from acc (x # xs) = np_add acc x # cumsum_from (np_add acc x) xs"

fun cumsum :: "npfloat list \<Rightarrow> npfloat list" where
  "cumsum [] = []"
| "cumsum (x # xs) = x # cumsum_from x xs"

record curves =
  all_hazards :: "npfloat list list"
  any_event_survival :: "npfloat list"
  theoretical_cif :: "npfloat list list"

text \<open>
  The numerical part of \<^verbatim>\<open>plot_cumulative_incidence_functions\<close>, on a given fine grid.
  Of the plotting, the model keeps what decides whether the curves are reached:
  \<^verbatim>\<open>plt.subplots(ncols=len(distributions))\<close> of line 108 refuses zero columns, and for one
  column it returns a single axes object, over which \<^verbatim>\<open>zip(axes, all_hazards)\<close> of line 136
  cannot iterate, so that no cumulative incidence is computed for a single cause.
\<close>

definition hazard_integrator :: "dist list \<Rightarrow> real list \<Rightarrow> py_error + curves" where
  "hazard_integrator distributions fine_time_grid =
     (if distributions = [] then Inl ValueError
      else case np_diff fine_time_grid of
        [] \<Rightarrow> Inl IndexError
      | dt # _ \<Rightarrow>
          (case collect (map (weibull_hazard_kw fine_time_grid) distributions) of
             Inl e \<Rightarrow> Inl e
           | Inr hs \<Rightarrow>
               (case np_stack hs of
                  Inl e \<Rightarrow> Inl e
                | Inr hazards \<Rightarrow>
                    (let any_event_hazards = sum_axis0 hazards;
                         survival =
                           map (\<lambda>c. np_exp (np_neg (np_mul c dt)))
                             (cumsum any_event_hazards)
                     in if length distributions = 1 then Inl TypeError
                        else Inr \<lparr>all_hazards = hazards,
                                  any_event_survival = survival,
                                  theoretical_cif =
                                    map (\<lambda>hazards_i.
                                           map (\<lambda>c. np_mul c dt)
                                             (cumsum (map2 np_mul hazards_i survival)))
                                      hazards\<rparr>))))"

subsection \<open>The event-time sampler (lines 32 to 61)\<close>

text \<open>
  The random generator and the two sampling primitives belong to numpy and scipy. They are
  parameters of the model: a primitive takes its distribution parameters, the number of
  draws and the generator, and returns the draws with the advanced generator, or raises.
\<close>

type_synonym 'g draw = "real \<Rightarrow> real \<Rightarrow> nat \<Rightarrow> 'g \<Rightarrow> py_error + (real list \<times> 'g)"

text \<open>
  The list comprehension of lines 43 to 51: one column of \<open>n_samples\<close> draws per cause, in
  the order of the list, each from the generator the previous one left.
\<close>

fun weibull_columns ::
  "'g draw \<Rightarrow> nat \<Rightarrow> dist list \<Rightarrow> 'g \<Rightarrow> py_error + (real list list \<times> 'g)" where
  "weibull_columns rvs n_samples [] rng = Inr ([], rng)"
| "weibull_columns rvs n_samples (d # ds) rng =
     (case d ''shape'' of
        None \<Rightarrow> Inl KeyError
      | Some shape \<Rightarrow>
          (case d ''scale'' of
             None \<Rightarrow> Inl KeyError
           | Some scale \<Rightarrow>
               (case rvs shape scale n_samples rng of
                  Inl e \<Rightarrow> Inl e
                | Inr (col, rng') \<Rightarrow>
                    (case weibull_columns rvs n_samples ds rng' of
                       Inl e \<Rightarrow> Inl e
                     | Inr (cols, rng'') \<Rightarrow> Inr (col # cols, rng'')))))"

text \<open>
  \<^verbatim>\<open>np.concatenate(..., axis=1)\<close> of column vectors: the matrix as the list of its rows.
  It refuses an empty list and columns of different lengths.
\<close>

definition np_concatenate_axis1 :: "real list list \<Rightarrow> py_error + real list list" where
  "np_concatenate_axis1 cols =
     (case cols of
        [] \<Rightarrow> Inl ValueError
      | c # cs \<Rightarrow>
          if list_all (\<lambda>c'. length c' = length c) cs
          then Inr (map (\<lambda>i. map (\<lambda>col. col ! i) cols) [0..<length c])
          else Inl ValueError)"

definition event_times ::
  "'g draw \<Rightarrow> nat \<Rightarrow> dist list \<Rightarrow> 'g \<Rightarrow> py_error + (real list list \<times> 'g)" where
  "event_times rvs n_samples distributions rng =
     (case weibull_columns rvs n_samples distributions rng of
        Inl e \<Rightarrow> Inl e
      | Inr (cols, rng') \<Rightarrow>
          (case np_concatenate_axis1 cols of
             Inl e \<Rightarrow> Inl e
           | Inr m \<Rightarrow> Inr (m, rng')))"

text \<open>\<^verbatim>\<open>np.argmin\<close> of one row: the first index of the least entry.\<close>

fun argmin_loop :: "nat \<Rightarrow> real \<Rightarrow> nat \<Rightarrow> real list \<Rightarrow> nat" where
  "argmin_loop best_i best_v i [] = best_i"
| "argmin_loop best_i best_v i (x # xs) =
     (if x < best_v then argmin_loop i x (Suc i) xs
      else argmin_loop best_i best_v (Suc i) xs)"

definition np_argmin :: "real list \<Rightarrow> py_error + nat" where
  "np_argmin row = (case row of [] \<Rightarrow> Inl ValueError | x # xs \<Rightarrow> Inr (argmin_loop 0 x 1 xs))"

definition first_event_idx :: "real list list \<Rightarrow> py_error + nat list" where
  "first_event_idx m = collect (map np_argmin m)"

record dataframe =
  event :: "int list"
  duration :: "real list"

text \<open>
  Lines 56 to 61. The index \<^verbatim>\<open>event_times[np.arange(n_samples), first_event_idx]\<close> pairs
  row \<open>i\<close> with its own argmin; it needs as many rows as \<open>n_samples\<close>, which the sampling
  primitive provides when it returns the number of draws it is asked for.
\<close>

definition y_uncensored :: "nat \<Rightarrow> real list list \<Rightarrow> py_error + dataframe" where
  "y_uncensored n_samples m =
     (case first_event_idx m of
        Inl e \<Rightarrow> Inl e
      | Inr idx \<Rightarrow>
          if length m \<noteq> n_samples then Inl IndexError
          else Inr \<lparr>event = map (\<lambda>i. int i + 1) idx,
                    duration = map (\<lambda>i. m ! i ! (idx ! i)) [0..<n_samples]\<rparr>)"

subsection \<open>The censoring injector (lines 68 to 80)\<close>

definition censoring_times ::
  "'g draw \<Rightarrow> nat \<Rightarrow> real \<Rightarrow> 'g \<Rightarrow> py_error + (real list \<times> 'g)" where
  "censoring_times uniform n_samples high rng = uniform 0 high n_samples rng"

text \<open>
  \<^verbatim>\<open>np.where(censoring_times < duration, 0, event)\<close> and
  \<^verbatim>\<open>np.minimum(censoring_times, duration)\<close>, element by element; arrays of different lengths
  are refused.
\<close>

definition y_censored :: "real list \<Rightarrow> dataframe \<Rightarrow> py_error + dataframe" where
  "y_censored c y =
     (if length c \<noteq> length (duration y) \<or> length (event y) \<noteq> length (duration y)
      then Inl ValueError
      else Inr \<lparr>event = map (\<lambda>i. if c ! i < duration y ! i then 0 else event y ! i)
                          [0..<length c],
                duration = map (\<lambda>i. min (c ! i) (duration y ! i)) [0..<length c]\<rparr>)"

subsection \<open>The whole run\<close>

record 'g dataset =
  latent :: "real list list"
  uncensored :: dataframe
  censoring :: "real list"
  censored :: dataframe
  rng_state :: 'g

text \<open>
  Lines 32 to 80, with the upper bound of the censoring distribution as a parameter
  (the source passes \<open>1.2 * t_max\<close>).
\<close>

definition simulate ::
  "(nat \<Rightarrow> 'g) \<Rightarrow> 'g draw \<Rightarrow> 'g draw \<Rightarrow> nat \<Rightarrow> nat \<Rightarrow> dist list \<Rightarrow> real
     \<Rightarrow> py_error + 'g dataset" where
  "simulate default_rng rvs uniform seed n_samples distributions high =
     (case event_times rvs n_samples distributions (default_rng seed) of
        Inl e \<Rightarrow> Inl e
      | Inr (m, rng1) \<Rightarrow>
          (case y_uncensored n_samples m of
             Inl e \<Rightarrow> Inl e
           | Inr yu \<Rightarrow>
               (case censoring_times uniform n_samples high rng1 of
                  Inl e \<Rightarrow> Inl e
                | Inr (c, rng2) \<Rightarrow>
                    (case y_censored c yu of
                       Inl e \<Rightarrow> Inl e
                     | Inr yc \<Rightarrow>
                         Inr \<lparr>latent = m, uncensored = yu, censoring = c, censored = yc,
                              rng_state = rng2\<rparr>))))"

text \<open>
  \<^verbatim>\<open>(y_censored["event"] == 0).mean()\<close>, shown in the title of the figure; the mean of no
  value is \<open>nan\<close>.
\<close>

definition censoring_fraction :: "dataframe \<Rightarrow> npfloat" where
  "censoring_fraction y =
     (if event y = [] then NaN
      else Finite (real (length (filter (\<lambda>e. e = 0) (event y))) / real (length (event y))))"

text \<open>
  \<^verbatim>\<open>plot_cumulative_incidence_functions\<close> reads the global \<open>t_max\<close> and the censored
  dataset. The number of points of the fine grid (100000 in the source) is a parameter.
\<close>

definition plot_cumulative_incidence_functions ::
  "dist list \<Rightarrow> real \<Rightarrow> nat \<Rightarrow> dataframe \<Rightarrow> py_error + (npfloat \<times> curves)" where
  "plot_cumulative_incidence_functions distributions t_max num y_cens =
     (case hazard_integrator distributions (linspace 0 t_max num) of
        Inl e \<Rightarrow> Inl e
      | Inr cv \<Rightarrow> Inr (censoring_fraction y_cens, cv))"

definition run ::
  "(nat \<Rightarrow> 'g) \<Rightarrow> 'g draw \<Rightarrow> 'g draw \<Rightarrow> nat \<Rightarrow> nat \<Rightarrow> dist list \<Rightarrow> real \<Rightarrow> nat \<Rightarrow> real
     \<Rightarrow> py_error + ('g dataset \<times> npfloat \<times> curves)" where
  "run default_rng rvs uniform seed n_samples distributions t_max num high =
     (case simulate default_rng rvs uniform seed n_samples distributions high of
        Inl e \<Rightarrow> Inl e
      | Inr ds \<Rightarrow>
          (case plot_cumulative_incidence_functions distributions t_max num (censored ds) of
             Inl e \<Rightarrow> Inl e
           | Inr (shown, cv) \<Rightarrow> Inr (ds, shown, cv)))"

text \<open>The constants of the script (lines 32 to 41, 70 and 121).\<close>

definition base_scale :: real where
  "base_scale = 1000"

definition t_max :: real where
  "t_max = 3 * base_scale"

definition distributions :: "dist list" where
  "distributions =
     [[''event_id'' \<mapsto> 1, ''scale'' \<mapsto> 10 * base_scale, ''shape'' \<mapsto> 0.5],
      [''event_id'' \<mapsto> 2, ''scale'' \<mapsto> 3 * base_scale, ''shape'' \<mapsto> 1],
      [''event_id'' \<mapsto> 3, ''scale'' \<mapsto> 2 * base_scale, ''shape'' \<mapsto> 5]]"

definition script ::
  "(nat \<Rightarrow> 'g) \<Rightarrow> 'g draw \<Rightarrow> 'g draw \<Rightarrow> py_error + ('g dataset \<times> npfloat \<times> curves)" where
  "script default_rng rvs uniform =
     run default_rng rvs uniform 0 5000 distributions t_max 100000 (1.2 * t_max)"

subsection \<open>The curves as the specification words them\<close>

text \<open>
  The hazard of the specification at one time point: zero at time zero, the Weibull
  formula elsewhere.
\<close>

definition spec_weibull_hazard :: "real \<Rightarrow> real \<Rightarrow> real \<Rightarrow> real" where
  "spec_weibull_hazard shape scale t =
     (if t = 0 then 0 else (shape / scale) * (t / scale) powr (shape - 1))"

text \<open>The sum of an array, from its first element on.\<close>

fun np_sum :: "npfloat list \<Rightarrow> npfloat" where
  "np_sum [] = Finite 0"
| "np_sum (x # xs) = foldl np_add x xs"

text \<open>
  \<open>exp(-cumulative_sum(all_cause_hazard) * dt)\<close> at grid point \<open>k\<close>, the all-cause hazard
  being the sum over the causes of the hazard curves \<open>hs\<close>.
\<close>

definition spec_survival :: "npfloat list list \<Rightarrow> npfloat \<Rightarrow> nat \<Rightarrow> npfloat" where
  "spec_survival hs dt k =
     np_exp (np_neg (np_mul
       (np_sum (map (\<lambda>j. np_sum (map (\<lambda>h. h ! j) hs)) [0..<Suc k])) dt))"

text \<open>\<open>cumulative_sum(cause_hazard * all_cause_survival) * dt\<close> at grid point \<open>k\<close>.\<close>

definition spec_cif :: "npfloat list \<Rightarrow> npfloat list \<Rightarrow> npfloat \<Rightarrow> nat \<Rightarrow> npfloat" where
  "spec_cif h survival dt k =
     np_mul (np_sum (map (\<lambda>j. np_mul (h ! j) (survival ! j)) [0..<Suc k])) dt"


text \<open>A cause of the data model: no key \<open>t\<close>, a positive shape and a positive scale.\<close>

definition cause_spec :: "dist \<Rightarrow> bool" where
  "cause_spec d \<longleftrightarrow> d ''t'' = None \<and> 0 < kwarg d ''shape'' 1 \<and> 0 < kwarg d ''scale'' 1"

text \<open>
  The curves over the reals, for causes of the data model on a grid of non-negative
  times: the hazard of one cause, the all-cause hazard at grid point \<open>j\<close>, the survival
  and the cumulative incidence of cause \<open>d\<close> at grid point \<open>k\<close>, with the step
  \<open>dt = grid[1] - grid[0]\<close>.
\<close>

definition cause_hazard :: "dist \<Rightarrow> real \<Rightarrow> real" where
  "cause_hazard d t = spec_weibull_hazard (kwarg d ''shape'' 1) (kwarg d ''scale'' 1) t"

definition total_hazard :: "dist list \<Rightarrow> real list \<Rightarrow> nat \<Rightarrow> real" where
  "total_hazard ds grid j = (\<Sum>d\<leftarrow>ds. cause_hazard d (grid ! j))"



text \<open>
  No operation of the hazard formula overflows at time \<open>t\<close>; no operation of the
  integration overflows on the grid. The hazards are not negative, so the largest sum is
  the sum of the all-cause hazard over the whole grid.
\<close>

definition formula_in_range :: "real \<Rightarrow> real \<Rightarrow> real \<Rightarrow> bool" where
  "formula_in_range shape scale t \<longleftrightarrow>
     shape / scale < overflow_threshold \<and> t / scale < overflow_threshold \<and>
     (t / scale) powr (shape - 1) < overflow_threshold \<and>
     (shape / scale) * (t / scale) powr (shape - 1) < overflow_threshold"

definition no_overflow :: "dist list \<Rightarrow> real list \<Rightarrow> bool" where
  "no_overflow ds grid \<longleftrightarrow>
     list_all (\<lambda>d. list_all (formula_in_range (kwarg d ''shape'' 1) (kwarg d ''scale'' 1)) grid)
       ds \<and>
     grid ! 1 - grid ! 0 < overflow_threshold \<and>
     (\<Sum>j\<leftarrow>[0..<length grid]. total_hazard ds grid j) * max 1 (grid ! 1 - grid ! 0)
       < overflow_threshold"

text \<open>Two causes with the same hazard parameters, whatever their other keys.\<close>

definition same_parameters :: "dist \<Rightarrow> dist \<Rightarrow> bool" where
  "same_parameters d d' \<longleftrightarrow>
     d ''shape'' = d' ''shape'' \<and> d ''scale'' = d' ''scale'' \<and>
     (d ''t'' = None) = (d' ''t'' = None)"

subsection \<open>Concrete inputs\<close>

text \<open>
  Two causes, and a counter in place of numpy's generator, with deterministic draws, to
  evaluate the run on concrete inputs.
\<close>

definition two_causes :: "dist list" where
  "two_causes =
     [[''event_id'' \<mapsto> 1, ''scale'' \<mapsto> 2, ''shape'' \<mapsto> 1],
      [''event_id'' \<mapsto> 2, ''scale'' \<mapsto> 3, ''shape'' \<mapsto> 2]]"

text \<open>A single cause; two causes of which the first has a hazard that overflows.\<close>

definition one_cause :: "dist list" where
  "one_cause = [[''event_id'' \<mapsto> 1, ''scale'' \<mapsto> 2, ''shape'' \<mapsto> 1]]"


definition counter_rng :: "nat \<Rightarrow> nat" where
  "counter_rng seed = seed"

definition counter_rvs :: "nat draw" where
  "counter_rvs shape scale n g = Inr (map (\<lambda>i. scale * real (Suc (g + i))) [0..<n], g + n)"

definition counter_uniform :: "nat draw" where
  "counter_uniform low high n g =
     Inr (map (\<lambda>i. low + (high - low) / real (g + i + 2)) [0..<n], g + n)"

section \<open>Properties\<close>

subsection \<open>The concrete inputs\<close>

lemma two_causes_length: "length two_causes = 2"
  by (simp add: two_causes_def)


lemma counter_rvs_state: "counter_rvs shape scale n g = Inr (col, g') \<Longrightarrow> g' = g + n"
  by (auto simp: counter_rvs_def)

subsection \<open>The inputs of the script\<close>

lemma length_linspace: "length (linspace start stop num) = num"
  by (simp add: linspace_def)

lemma linspace_first: "0 < num \<Longrightarrow> linspace 0 stop num ! 0 = 0"
  by (simp add: linspace_def)

lemma sorted_scaled_upt:
  fixes c :: real
  assumes "0 \<le> c"
  shows "sorted (map (\<lambda>i. 0 + real i * c) [0..<n])"
  using assms by (auto simp: sorted_iff_nth_mono mult_right_mono)

lemma sorted_linspace:
  assumes "0 \<le> stop"
  shows "sorted (linspace 0 stop num)"
proof (cases "num = 1")
  case True
  then show ?thesis by (simp add: linspace_def)
next
  case False
  then have "linspace 0 stop num = map (\<lambda>i. 0 + real i * (stop / real (num - 1))) [0..<num]"
    by (simp only: linspace_def if_False diff_zero)
  moreover have "0 \<le> stop / real (num - 1)" using assms by simp
  ultimately show ?thesis by (simp only: sorted_scaled_upt)
qed

lemma script_inputs:
  "2 \<le> length distributions \<and> (\<forall>d \<in> set distributions. cause_spec d) \<and>
   2 \<le> length (linspace 0 t_max 100000) \<and> sorted (linspace 0 t_max 100000) \<and>
   linspace 0 t_max 100000 ! 0 = 0"
  by (simp add: distributions_def cause_spec_def kwarg_def base_scale_def t_max_def
        length_linspace linspace_first sorted_linspace)

subsection \<open>Collected results\<close>

lemma collect_length: "collect rs = Inr vs \<Longrightarrow> length vs = length rs"
proof (induction rs arbitrary: vs)
  case Nil
  then show ?case by simp
next
  case (Cons r rs)
  then show ?case by (cases r) (auto split: sum.splits)
qed

lemma collect_nth: "collect rs = Inr vs \<Longrightarrow> i < length rs \<Longrightarrow> rs ! i = Inr (vs ! i)"
proof (induction rs arbitrary: vs i)
  case Nil
  then show ?case by simp
next
  case (Cons r rs)
  then show ?case by (cases r; cases i) (auto split: sum.splits)
qed

lemma collect_map_Inr:
  "(\<And>x. x \<in> set xs \<Longrightarrow> f x = Inr (g x)) \<Longrightarrow> collect (map f xs) = Inr (map g xs)"
  by (induction xs) auto

subsection \<open>Overflow\<close>

lemma overflow_threshold_large: "2 ^ 1023 < overflow_threshold"
proof -
  have "(2::real) ^ 970 < 2 ^ 1023" by (rule power_strict_increasing) simp_all
  moreover have "(2::real) ^ 1024 = 2 * 2 ^ 1023" by simp
  ultimately show ?thesis by (simp add: overflow_threshold_def)
qed

lemma overflow_threshold_pos: "0 < overflow_threshold"
  using overflow_threshold_large by (rule less_trans [rotated]) simp

lemma overflow_nonneg: "0 \<le> x \<Longrightarrow> x < overflow_threshold \<Longrightarrow> overflow x = Finite x"
  using overflow_threshold_pos by (simp add: overflow_def)

lemma small_in_range: "x \<le> 2 ^ 64 \<Longrightarrow> x < overflow_threshold"
proof -
  assume "x \<le> 2 ^ 64"
  moreover have "(2::real) ^ 64 < 2 ^ 1023" by (rule power_strict_increasing) simp_all
  ultimately show ?thesis using overflow_threshold_large by linarith
qed

lemma overflow_small: "0 \<le> x \<Longrightarrow> x \<le> 2 ^ 64 \<Longrightarrow> overflow x = Finite x"
  by (simp add: overflow_nonneg small_in_range)


subsection \<open>The hazard function\<close>

lemma np_power_Ignore: "np_power Ignore b y = Inr (fst (float_power b y))"
  by (simp add: np_power_def split: prod.splits)

lemma map2_map_same: "map2 f xs (map g xs) = map (\<lambda>x. f x (g x)) xs"
  by (induction xs) auto

lemma weibull_hazard_Inr:
  "scale \<noteq> 0 \<Longrightarrow>
   weibull_hazard t shape scale =
     Inr (map (\<lambda>ti. if ti = 0 then Finite 0
                     else np_mul (overflow (shape / scale))
                            (fst (float_power (overflow (ti / scale)) (shape - 1)))) t)"
  by (simp add: weibull_hazard_def np_power_Ignore collect_map_Inr map2_map_same)





subsection \<open>The event-time sampler and the censoring injector\<close>

lemma argmin_loop_first_min:
  assumes "length pre = i" and "best_i < i" and "pre ! best_i = best_v"
    and "\<forall>j<i. best_v \<le> pre ! j" and "\<forall>j<best_i. best_v < pre ! j"
  shows "argmin_loop best_i best_v i xs < length (pre @ xs) \<and>
         (\<forall>j<length (pre @ xs). (pre @ xs) ! argmin_loop best_i best_v i xs \<le> (pre @ xs) ! j) \<and>
         (\<forall>j<argmin_loop best_i best_v i xs.
            (pre @ xs) ! argmin_loop best_i best_v i xs < (pre @ xs) ! j)"
  using assms
proof (induction xs arbitrary: pre i best_i best_v)
  case Nil
  then show ?case by auto
next
  case (Cons x xs)
  let ?pre = "pre @ [x]"
  have len: "length ?pre = Suc i" using Cons.prems by simp
  show ?case
  proof (cases "x < best_v")
    case True
    have a: "i < Suc i" by simp
    have b: "?pre ! i = x" using Cons.prems by (simp add: nth_append)
    have c: "\<forall>j<Suc i. x \<le> ?pre ! j"
      using Cons.prems True by (auto simp: nth_append less_Suc_eq)
    have d: "\<forall>j<i. x < ?pre ! j"
      using Cons.prems True by (auto simp: nth_append)
    from Cons.IH [OF len a b c d] True show ?thesis by simp
  next
    case False
    have a: "best_i < Suc i" using Cons.prems by simp
    have b: "?pre ! best_i = best_v" using Cons.prems by (simp add: nth_append)
    have c: "\<forall>j<Suc i. best_v \<le> ?pre ! j"
      using Cons.prems False by (auto simp: nth_append less_Suc_eq)
    have d: "\<forall>j<best_i. best_v < ?pre ! j"
      using Cons.prems by (auto simp: nth_append)
    from Cons.IH [OF len a b c d] False show ?thesis by simp
  qed
qed

lemma np_argmin_first_min:
  assumes "np_argmin row = Inr k"
  shows "k < length row \<and> (\<forall>j<length row. row ! k \<le> row ! j) \<and> (\<forall>j<k. row ! k < row ! j)"
proof (cases row)
  case Nil
  with assms show ?thesis by (simp add: np_argmin_def)
next
  case (Cons x xs)
  with assms have k: "k = argmin_loop 0 x 1 xs" by (simp add: np_argmin_def)
  have "argmin_loop 0 x 1 xs < length ([x] @ xs) \<and>
         (\<forall>j<length ([x] @ xs). ([x] @ xs) ! argmin_loop 0 x 1 xs \<le> ([x] @ xs) ! j) \<and>
         (\<forall>j<argmin_loop 0 x 1 xs. ([x] @ xs) ! argmin_loop 0 x 1 xs < ([x] @ xs) ! j)"
    by (rule argmin_loop_first_min) auto
  with k Cons show ?thesis by simp
qed

lemma nth_is_Min:
  fixes row :: "real list"
  assumes "k < length row" and "\<forall>j<length row. row ! k \<le> row ! j"
  shows "row ! k = Min (set row)"
proof -
  have "row ! k \<in> set row" using assms(1) by simp
  moreover have "\<forall>x\<in>set row. row ! k \<le> x"
    using assms(2) by (auto simp: in_set_conv_nth)
  ultimately show ?thesis by (intro Min_eqI [symmetric]) auto
qed

lemma y_uncensored_fields:
  assumes "y_uncensored n m = Inr yu"
  shows "\<exists>idx. first_event_idx m = Inr idx \<and> length m = n \<and> length idx = n \<and>
           event yu = map (\<lambda>i. int i + 1) idx \<and>
           duration yu = map (\<lambda>i. m ! i ! (idx ! i)) [0..<n]"
proof -
  from assms obtain idx where idx: "first_event_idx m = Inr idx"
    by (auto simp: y_uncensored_def split: sum.splits)
  with assms have len: "length m = n"
    by (auto simp: y_uncensored_def split: if_splits)
  from idx have "length idx = length m"
    using collect_length [of "map np_argmin m" idx] by (simp add: first_event_idx_def)
  with assms idx len show ?thesis
    by (auto simp: y_uncensored_def)
qed

text \<open>
  C4: for every subject \<open>i\<close>, the resolved cause is \<open>k + 1\<close> where \<open>k\<close> is the first index
  of the least entry of row \<open>i\<close> of the matrix of latent times (columns in the order of
  the list of causes), and the true event time is that least entry.
\<close>

theorem y_uncensored_argmin:
  assumes "y_uncensored n m = Inr yu" and "i < n"
  shows "length (event yu) = n \<and> length (duration yu) = n \<and>
         (\<exists>k<length (m ! i).
            event yu ! i = int k + 1 \<and>
            m ! i ! k = Min (set (m ! i)) \<and>
            (\<forall>j<k. m ! i ! k < m ! i ! j) \<and>
            duration yu ! i = Min (set (m ! i)))"
proof -
  from y_uncensored_fields [OF assms(1)] obtain idx where
    idx: "first_event_idx m = Inr idx" and len: "length m = n" "length idx = n" and
    ev: "event yu = map (\<lambda>i. int i + 1) idx" and
    du: "duration yu = map (\<lambda>i. m ! i ! (idx ! i)) [0..<n]"
    by blast
  have "map np_argmin m ! i = Inr (idx ! i)"
    using idx len assms(2) by (intro collect_nth) (simp_all add: first_event_idx_def)
  then have am: "np_argmin (m ! i) = Inr (idx ! i)"
    using len assms(2) by simp
  note fm = np_argmin_first_min [OF am]
  have "m ! i ! (idx ! i) = Min (set (m ! i))"
    using fm by (intro nth_is_Min) simp_all
  with fm ev du len assms(2) show ?thesis by auto
qed

theorem y_uncensored_argmin_witness:
  "y_uncensored 2 [[3, 1, 2], [1, 1, 5]] = Inr \<lparr>event = [2, 1], duration = [1, 1]\<rparr> \<and>
   (0::nat) < 2 \<and>
   (\<exists>k<length [3, 1, 2::real].
      [2, 1::int] ! 0 = int k + 1 \<and> [3, 1, 2::real] ! k = Min (set [3, 1, 2::real]) \<and>
      (\<forall>j<k. [3, 1, 2::real] ! k < [3, 1, 2::real] ! j) \<and>
      [1, 1::real] ! 0 = Min (set [3, 1, 2::real]))"
proof -
  have h: "y_uncensored 2 [[3, 1, 2], [1, 1, 5]] = Inr \<lparr>event = [2, 1], duration = [1, 1]\<rparr>"
    by (simp add: y_uncensored_def first_event_idx_def np_argmin_def upt_conv_Cons)
  have i: "(0::nat) < 2" by simp
  from y_uncensored_argmin [OF h i] h show ?thesis by simp
qed

text \<open>
  C3: for every subject \<open>i\<close>, the observed duration is the minimum of the true event time
  and the censoring time, and the observed event is 0 exactly when the censoring time is
  strictly less than the true event time; otherwise (a tie included) it is the resolved
  cause of the subject.
\<close>

theorem y_censored_invariant:
  assumes "y_uncensored n m = Inr yu" and "y_censored c yu = Inr yc" and "i < n"
  shows "length (event yc) = n \<and> length (duration yc) = n \<and>
         duration yc ! i = min (duration yu ! i) (c ! i) \<and>
         (event yc ! i = 0 \<longleftrightarrow> c ! i < duration yu ! i) \<and>
         (\<not> c ! i < duration yu ! i \<longrightarrow> event yc ! i = event yu ! i)"
proof -
  from y_uncensored_fields [OF assms(1)] obtain idx where
    len: "length idx = n" and ev: "event yu = map (\<lambda>i. int i + 1) idx" and
    du: "duration yu = map (\<lambda>i. m ! i ! (idx ! i)) [0..<n]"
    by blast
  from assms(2) have lc: "length c = n" and
    yc: "yc = \<lparr>event = map (\<lambda>i. if c ! i < duration yu ! i then 0 else event yu ! i) [0..<length c],
               duration = map (\<lambda>i. min (c ! i) (duration yu ! i)) [0..<length c]\<rparr>"
    using du by (auto simp: y_censored_def split: if_splits)
  have "event yu ! i \<noteq> 0" using ev len assms(3) by simp
  with yc lc assms(3) show ?thesis by (auto simp: min.commute)
qed

theorem y_censored_invariant_witness:
  "y_uncensored 2 [[3, 1, 2], [1, 1, 5]] = Inr \<lparr>event = [2, 1], duration = [1, 1]\<rparr> \<and>
   y_censored [1, 1/2] \<lparr>event = [2, 1], duration = [1, 1]\<rparr>
     = Inr \<lparr>event = [2, 0], duration = [1, 1/2]\<rparr> \<and>
   (0::nat) < 2 \<and>
   [1, 1/2::real] ! 0 = min ([1, 1::real] ! 0) ([1, 1/2::real] ! 0) \<and>
   ([2, 0::int] ! 0 = 0 \<longleftrightarrow> [1, 1/2::real] ! 0 < [1, 1::real] ! 0) \<and>
   \<not> [1, 1/2::real] ! 0 < [1, 1::real] ! 0 \<and> [2, 0::int] ! 0 = [2, 1::int] ! 0"
proof -
  have h: "y_uncensored 2 [[3, 1, 2], [1, 1, 5]] = Inr \<lparr>event = [2, 1], duration = [1, 1]\<rparr>"
    by (simp add: y_uncensored_def first_event_idx_def np_argmin_def upt_conv_Cons)
  have c: "y_censored [1, 1/2] \<lparr>event = [2, 1], duration = [1, 1]\<rparr>
     = Inr \<lparr>event = [2, 0], duration = [1, 1/2]\<rparr>"
    by (simp add: y_censored_def upt_conv_Cons)
  have i: "(0::nat) < 2" by simp
  from y_censored_invariant [OF h c i] h c show ?thesis by simp
qed

subsection \<open>Keys of a cause that the hazard ignores\<close>

lemma weibull_hazard_kw_same:
  "same_parameters d d' \<Longrightarrow> weibull_hazard_kw t d = weibull_hazard_kw t d'"
  by (auto simp: same_parameters_def weibull_hazard_kw_def kwarg_def)

text \<open>
  C10: two lists of causes that agree, cause by cause, on shape and scale and on whether
  they have a key \<open>t\<close> give the same hazard curves, and so the same survival and
  cumulative incidence curves, whatever their \<open>event_id\<close> and their other keys. The key
  \<open>t\<close> is not ignored: it names the positional argument, and the call refuses it.
\<close>

theorem hazard_ignores_other_keys:
  assumes "list_all2 same_parameters ds ds'"
  shows "map (weibull_hazard_kw grid) ds = map (weibull_hazard_kw grid) ds' \<and>
         hazard_integrator ds grid = hazard_integrator ds' grid"
proof -
  from assms have h: "map (weibull_hazard_kw grid) ds = map (weibull_hazard_kw grid) ds'"
    by (induction rule: list_all2_induct) (simp_all add: weibull_hazard_kw_same)
  from assms have len: "length ds = length ds'" by (rule list_all2_lengthD)
  then have e: "(ds = []) = (ds' = [])" by auto
  have "hazard_integrator ds grid = hazard_integrator ds' grid"
    unfolding hazard_integrator_def h len e ..
  with h show ?thesis by simp
qed

theorem hazard_ignores_other_keys_witness:
  "list_all2 same_parameters two_causes
     [[''event_id'' \<mapsto> 7, ''scale'' \<mapsto> 2, ''shape'' \<mapsto> 1, ''colour'' \<mapsto> 5],
      [''scale'' \<mapsto> 3, ''shape'' \<mapsto> 2]] \<and>
   hazard_integrator two_causes [0, 1]
     = hazard_integrator
         [[''event_id'' \<mapsto> 7, ''scale'' \<mapsto> 2, ''shape'' \<mapsto> 1, ''colour'' \<mapsto> 5],
          [''scale'' \<mapsto> 3, ''shape'' \<mapsto> 2]] [0, 1]"
proof -
  have h: "list_all2 same_parameters two_causes
     [[''event_id'' \<mapsto> 7, ''scale'' \<mapsto> 2, ''shape'' \<mapsto> 1, ''colour'' \<mapsto> 5],
      [''scale'' \<mapsto> 3, ''shape'' \<mapsto> 2]]"
    by (simp add: two_causes_def same_parameters_def)
  from hazard_ignores_other_keys [OF h, of "[0, 1]"] h show ?thesis by blast
qed

text \<open>
  A key \<open>t\<close> is an extra field that changes the result: the call raises, where the same
  cause without it has a hazard curve.
\<close>

theorem key_t_is_refused:
  "weibull_hazard_kw [0, 1] [''scale'' \<mapsto> 2, ''shape'' \<mapsto> 1, ''t'' \<mapsto> 5] = Inl TypeError \<and>
   weibull_hazard_kw [0, 1] [''scale'' \<mapsto> 2, ''shape'' \<mapsto> 1] = Inr [Finite 0, Finite (1/2)]"
  by (simp add: weibull_hazard_kw_def kwarg_def weibull_hazard_Inr float_power_def
        overflow_small)

subsection \<open>The observation horizon\<close>

lemma y_censored_duration_le:
  assumes "y_censored c y = Inr yc"
  shows "length (duration yc) = length c \<and> (\<forall>i<length c. duration yc ! i \<le> c ! i)"
  using assms by (auto simp: y_censored_def split: if_splits)

lemma counter_simulate_succeeds:
  "\<exists>r. simulate counter_rng counter_rvs counter_uniform 0 2
     two_causes high = Inr r"
  by (simp add: two_causes_def simulate_def event_times_def censoring_times_def
        counter_rng_def counter_rvs_def
        counter_uniform_def np_concatenate_axis1_def y_uncensored_def first_event_idx_def
        np_argmin_def y_censored_def upt_conv_Cons)

lemma counter_uniform_range:
  assumes "0 < high" and "counter_uniform 0 high n g = Inr (xs, g')"
  shows "\<forall>x\<in>set xs. 0 \<le> x \<and> x < high"
proof
  fix x assume "x \<in> set xs"
  moreover from assms(2) have "xs = map (\<lambda>i. high / real (g + i + 2)) [0..<n]"
    by (simp add: counter_uniform_def)
  ultimately obtain i where x: "x = high / real (g + i + 2)"
    by auto
  have "1 < real (g + i + 2)" by simp
  with assms(1) have "high / real (g + i + 2) < high / 1"
    by (intro divide_strict_left_mono) simp_all
  with assms(1) x show "0 \<le> x \<and> x < high" by simp
qed

text \<open>
  C9: when the uniform primitive keeps its contract (draws in \<open>[0, 1.2 * t_max)\<close>), every
  observed duration of the censored dataset is strictly below \<open>1.2 * t_max\<close>, whatever
  the latent event times.
\<close>

theorem censored_duration_below_bound:
  assumes "simulate default_rng rvs uniform seed n ds (1.2 * tmax) = Inr r"
    and "\<forall>g xs g'. uniform 0 (1.2 * tmax) n g = Inr (xs, g') \<longrightarrow> (\<forall>x\<in>set xs. 0 \<le> x \<and> x < 1.2 * tmax)"
  shows "\<forall>d\<in>set (duration (censored r)). d < 1.2 * tmax"
proof -
  from assms(1) obtain m rng1 yu rng2 where
    u: "uniform 0 (1.2 * tmax) n rng1 = Inr (censoring r, rng2)" and
    c: "y_censored (censoring r) yu = Inr (censored r)"
    by (auto simp: simulate_def censoring_times_def split: sum.splits prod.splits)
  from assms(2) u have cb: "\<forall>x\<in>set (censoring r). x < 1.2 * tmax" by blast
  note le = y_censored_duration_le [OF c]
  show ?thesis
  proof
    fix d assume "d \<in> set (duration (censored r))"
    then obtain i where i: "i < length (censoring r)" and d: "d = duration (censored r) ! i"
      using le by (auto simp: in_set_conv_nth)
    have "d \<le> censoring r ! i" using le i d by simp
    moreover have "censoring r ! i < 1.2 * tmax" using cb i by simp
    ultimately show "d < 1.2 * tmax" by simp
  qed
qed


theorem censored_duration_below_bound_witness:
  "\<exists>r. simulate counter_rng counter_rvs counter_uniform 0 2
          two_causes (1.2 * 3) = Inr r \<and>
        (\<forall>d\<in>set (duration (censored r)). d < 1.2 * 3)"
proof -
  obtain r where a: "simulate counter_rng counter_rvs counter_uniform 0 2
          two_causes (1.2 * 3) = Inr r"
    using counter_simulate_succeeds [of "1.2 * 3"] by blast
  have b: "\<forall>g xs g'. counter_uniform 0 (1.2 * 3) 2 g = Inr (xs, g') \<longrightarrow>
             (\<forall>x\<in>set xs. 0 \<le> x \<and> x < 1.2 * 3)"
    using counter_uniform_range [of "1.2 * 3" 2] by simp
  from censored_duration_below_bound [OF a b] a show ?thesis by blast
qed

subsection \<open>The hazard integrator, point by point\<close>

lemma length_cumsum_from: "length (cumsum_from acc xs) = length xs"
  by (induction xs arbitrary: acc) simp_all

lemma length_cumsum: "length (cumsum xs) = length xs"
  by (cases xs) (simp_all add: length_cumsum_from)

lemma cumsum_from_nth:
  "k < length xs \<Longrightarrow> cumsum_from acc xs ! k = foldl np_add acc (take (Suc k) xs)"
proof (induction xs arbitrary: acc k)
  case Nil
  then show ?case by simp
next
  case (Cons x xs)
  then show ?case by (cases k) simp_all
qed

lemma cumsum_nth: "k < length xs \<Longrightarrow> cumsum xs ! k = np_sum (take (Suc k) xs)"
proof (cases xs)
  case Nil
  then show "k < length xs \<Longrightarrow> ?thesis" by simp
next
  case (Cons x xs')
  assume "k < length xs"
  with Cons show ?thesis
    by (cases k) (simp_all add: cumsum_from_nth)
qed

lemma take_Suc_map_nth: "k < length xs \<Longrightarrow> take (Suc k) xs = map (\<lambda>j. xs ! j) [0..<Suc k]"
  by (intro nth_equalityI) (auto simp del: upt_Suc)

lemma cumsum_nth_upt:
  "k < length xs \<Longrightarrow> cumsum xs ! k = np_sum (map (\<lambda>j. xs ! j) [0..<Suc k])"
  by (simp only: cumsum_nth take_Suc_map_nth)

lemma foldl_map2_np_add:
  assumes "\<forall>r' \<in> set rs. length r' = length r"
  shows "length (foldl (map2 np_add) r rs) = length r \<and>
         (\<forall>j<length r. foldl (map2 np_add) r rs ! j
            = foldl np_add (r ! j) (map (\<lambda>row. row ! j) rs))"
  using assms
proof (induction rs arbitrary: r)
  case Nil
  then show ?case by simp
next
  case (Cons a rs)
  have la: "length a = length r" using Cons.prems by simp
  have "\<forall>r' \<in> set rs. length r' = length (map2 np_add r a)"
    using Cons.prems by simp
  from Cons.IH [OF this] la show ?case by simp
qed

lemma sum_axis0_nth:
  assumes "rows \<noteq> []" and "\<forall>r \<in> set rows. length r = n" and "j < n"
  shows "sum_axis0 rows ! j = np_sum (map (\<lambda>row. row ! j) rows)"
proof -
  from assms(1) obtain r rs where rows: "rows = r # rs" by (cases rows) auto
  with assms(2) have "\<forall>r' \<in> set rs. length r' = length r" and "length r = n" by simp_all
  with foldl_map2_np_add [of rs r] assms(3) rows show ?thesis
    by (simp add: sum_axis0_def)
qed

lemma length_sum_axis0:
  assumes "rows \<noteq> []" and "\<forall>r \<in> set rows. length r = n"
  shows "length (sum_axis0 rows) = n"
proof -
  from assms(1) obtain r rs where rows: "rows = r # rs" by (cases rows) auto
  with assms(2) have "\<forall>r' \<in> set rs. length r' = length r" and "length r = n" by simp_all
  with foldl_map2_np_add [of rs r] rows show ?thesis
    by (simp add: sum_axis0_def)
qed

lemma np_stack_ok:
  assumes "hs \<noteq> []" and "\<forall>h \<in> set hs. length h = n"
  shows "np_stack hs = Inr hs"
  using assms by (cases hs) (auto simp: np_stack_def list_all_iff)

lemma np_diff_first:
  "2 \<le> length grid \<Longrightarrow> \<exists>rest. np_diff grid = overflow (grid ! 1 - grid ! 0) # rest"
proof -
  assume "2 \<le> length grid"
  then have "[0..<length grid - 1] = 0 # [1..<length grid - 1]"
    by (simp add: upt_conv_Cons)
  then show ?thesis by (simp add: np_diff_def)
qed

lemma weibull_hazard_kw_length:
  "weibull_hazard_kw t d = Inr h \<Longrightarrow> length h = length t"
  by (auto simp: weibull_hazard_kw_def weibull_hazard_def split: if_splits sum.splits
        dest: collect_length)

lemma weibull_hazard_kw_succeeds:
  "d ''t'' = None \<Longrightarrow> kwarg d ''scale'' 1 \<noteq> 0 \<Longrightarrow> \<exists>h. weibull_hazard_kw t d = Inr h"
  by (simp add: weibull_hazard_kw_def weibull_hazard_Inr)

lemma collect_succeeds:
  "(\<And>r. r \<in> set rs \<Longrightarrow> \<exists>v. r = Inr v) \<Longrightarrow> \<exists>vs. collect rs = Inr vs"
proof (induction rs)
  case Nil
  then show ?case by simp
next
  case (Cons r rs)
  then obtain v vs where "r = Inr v" "collect rs = Inr vs" by (metis list.set_intros)
  then show ?case by simp
qed


lemma collect_hazards_lengths:
  assumes "collect (map (weibull_hazard_kw grid) ds) = Inr hs"
  shows "length hs = length ds \<and> (\<forall>h \<in> set hs. length h = length grid)"
proof -
  from assms have len: "length hs = length ds"
    using collect_length by fastforce
  have "\<forall>i<length hs. length (hs ! i) = length grid"
  proof (intro allI impI)
    fix i assume "i < length hs"
    with len assms have "weibull_hazard_kw grid (ds ! i) = Inr (hs ! i)"
      using collect_nth [of "map (weibull_hazard_kw grid) ds" hs i] by simp
    then show "length (hs ! i) = length grid" by (rule weibull_hazard_kw_length)
  qed
  with len show ?thesis by (auto simp: in_set_conv_nth)
qed

lemma hazard_integrator_unfold:
  assumes "collect (map (weibull_hazard_kw grid) ds) = Inr hs" and "2 \<le> length ds"
    and "2 \<le> length grid"
  shows "hazard_integrator ds grid =
     Inr \<lparr>all_hazards = hs,
          any_event_survival =
            map (\<lambda>c. np_exp (np_neg (np_mul c (overflow (grid ! 1 - grid ! 0)))))
              (cumsum (sum_axis0 hs)),
          theoretical_cif =
            map (\<lambda>hazards_i.
                   map (\<lambda>c. np_mul c (overflow (grid ! 1 - grid ! 0)))
                     (cumsum (map2 np_mul hazards_i
                        (map (\<lambda>c. np_exp (np_neg (np_mul c (overflow (grid ! 1 - grid ! 0)))))
                           (cumsum (sum_axis0 hs))))))
              hs\<rparr>"
proof -
  from np_diff_first [OF assms(3)] obtain rest where
    d: "np_diff grid = overflow (grid ! 1 - grid ! 0) # rest" by blast
  note l = collect_hazards_lengths [OF assms(1)]
  with assms(2) have "hs \<noteq> []" by auto
  with l have "np_stack hs = Inr hs" by (intro np_stack_ok) auto
  moreover from assms(2) have "ds \<noteq> []" and "length ds \<noteq> 1" by auto
  ultimately show ?thesis using d assms(1) by (simp add: hazard_integrator_def Let_def)
qed

lemma hazard_integrator_single:
  assumes "collect (map (weibull_hazard_kw grid) ds) = Inr hs" and "length ds = 1"
    and "2 \<le> length grid"
  shows "hazard_integrator ds grid = Inl TypeError"
proof -
  from np_diff_first [OF assms(3)] obtain rest where
    d: "np_diff grid = overflow (grid ! 1 - grid ! 0) # rest" by blast
  note l = collect_hazards_lengths [OF assms(1)]
  with assms(2) have "hs \<noteq> []" by auto
  with l have "np_stack hs = Inr hs" by (intro np_stack_ok) auto
  moreover from assms(2) have "ds \<noteq> []" by auto
  ultimately show ?thesis using d assms(1,2) by (simp add: hazard_integrator_def Let_def)
qed

lemma hazard_integrator_pointwise:
  assumes "hazard_integrator ds grid = Inr cv"
    and "collect (map (weibull_hazard_kw grid) ds) = Inr hs" and "2 \<le> length ds"
    and "2 \<le> length grid"
  shows "all_hazards cv = hs"
    and "length (any_event_survival cv) = length grid"
    and "length (theoretical_cif cv) = length ds"
    and "k < length grid \<Longrightarrow>
           any_event_survival cv ! k = spec_survival hs (overflow (grid ! 1 - grid ! 0)) k"
    and "i < length ds \<Longrightarrow> length (theoretical_cif cv ! i) = length grid"
    and "i < length ds \<Longrightarrow> k < length grid \<Longrightarrow>
           theoretical_cif cv ! i ! k
             = spec_cif (hs ! i) (any_event_survival cv) (overflow (grid ! 1 - grid ! 0)) k"
proof -
  let ?dt = "overflow (grid ! 1 - grid ! 0)"
  let ?n = "length grid"
  note l = collect_hazards_lengths [OF assms(2)]
  from l assms(3) have ne: "hs \<noteq> []" by auto
  from l have all_n: "\<forall>h \<in> set hs. length h = ?n" by simp
  note len_sum = length_sum_axis0 [OF ne all_n]
  from assms(1) hazard_integrator_unfold [OF assms(2-4)] have
    cv: "cv = \<lparr>all_hazards = hs,
          any_event_survival =
            map (\<lambda>c. np_exp (np_neg (np_mul c ?dt))) (cumsum (sum_axis0 hs)),
          theoretical_cif =
            map (\<lambda>hazards_i.
                   map (\<lambda>c. np_mul c ?dt)
                     (cumsum (map2 np_mul hazards_i
                        (map (\<lambda>c. np_exp (np_neg (np_mul c ?dt)))
                           (cumsum (sum_axis0 hs))))))
              hs\<rparr>"
    by simp
  show "all_hazards cv = hs" by (simp add: cv)
  show ls: "length (any_event_survival cv) = ?n"
    by (simp add: cv length_cumsum len_sum)
  show "length (theoretical_cif cv) = length ds" using l by (simp add: cv)
  have sv: "any_event_survival cv ! k = spec_survival hs ?dt k" if k: "k < ?n" for k
  proof -
    have "cumsum (sum_axis0 hs) ! k = np_sum (map (\<lambda>j. sum_axis0 hs ! j) [0..<Suc k])"
      using k len_sum by (simp add: cumsum_nth_upt del: upt_Suc)
    also have "map (\<lambda>j. sum_axis0 hs ! j) [0..<Suc k]
                 = map (\<lambda>j. np_sum (map (\<lambda>h. h ! j) hs)) [0..<Suc k]"
      using k by (intro map_cong refl sum_axis0_nth [OF ne all_n]) auto
    finally show ?thesis
      using k len_sum by (simp add: cv spec_survival_def length_cumsum del: upt_Suc)
  qed
  show "any_event_survival cv ! k = spec_survival hs ?dt k" if "k < ?n"
    using that by (rule sv)
  show "length (theoretical_cif cv ! i) = ?n" if i: "i < length ds"
  proof -
    from i l have "length (hs ! i) = ?n" by simp
    with i l ls show ?thesis
      by (simp add: cv length_cumsum len_sum)
  qed
  show "theoretical_cif cv ! i ! k = spec_cif (hs ! i) (any_event_survival cv) ?dt k"
    if i: "i < length ds" and k: "k < ?n"
  proof -
    let ?s = "any_event_survival cv"
    from i l have li: "length (hs ! i) = ?n" by simp
    have lm: "length (map2 np_mul (hs ! i) ?s) = ?n" using li ls by simp
    have "cumsum (map2 np_mul (hs ! i) ?s) ! k
            = np_sum (map (\<lambda>j. map2 np_mul (hs ! i) ?s ! j) [0..<Suc k])"
      using k lm by (simp add: cumsum_nth_upt del: upt_Suc)
    also have "map (\<lambda>j. map2 np_mul (hs ! i) ?s ! j) [0..<Suc k]
                 = map (\<lambda>j. np_mul (hs ! i ! j) (?s ! j)) [0..<Suc k]"
      using k li ls by (intro map_cong refl) auto
    finally have c: "cumsum (map2 np_mul (hs ! i) ?s) ! k
            = np_sum (map (\<lambda>j. np_mul (hs ! i ! j) (?s ! j)) [0..<Suc k])" .
    have "theoretical_cif cv ! i ! k
            = np_mul (cumsum (map2 np_mul (hs ! i) ?s) ! k) ?dt"
      using i k l lm by (simp add: cv length_cumsum)
    with c show ?thesis by (simp add: spec_cif_def del: upt_Suc)
  qed
qed

lemma hazards_succeed:
  assumes "\<forall>d \<in> set ds. d ''t'' = None \<and> kwarg d ''scale'' 1 \<noteq> 0"
  shows "\<exists>hs. collect (map (weibull_hazard_kw grid) ds) = Inr hs"
  using assms by (intro collect_succeeds) (auto simp: weibull_hazard_kw_succeeds)

lemma hazard_integrator_succeeds:
  assumes "2 \<le> length ds" and "\<forall>d \<in> set ds. d ''t'' = None \<and> kwarg d ''scale'' 1 \<noteq> 0"
    and "2 \<le> length grid"
  shows "\<exists>cv. hazard_integrator ds grid = Inr cv"
proof -
  from hazards_succeed [OF assms(2)] obtain hs where
    "collect (map (weibull_hazard_kw grid) ds) = Inr hs" ..
  from hazard_integrator_unfold [OF this assms(1,3)] show ?thesis by blast
qed

text \<open>
  C1: for a list of at least two causes (none with a key \<open>t\<close> or a zero scale) and a grid
  of at least two points with step \<open>dt = grid[1] - grid[0]\<close>, the hazard integrator
  returns curves aligned with the grid: at every grid point \<open>k\<close> the survival is
  \<open>exp(-(sum over j \<le> k of the sum over causes of the hazard at j) * dt)\<close>, and the
  cumulative incidence of each cause is
  \<open>(sum over j \<le> k of (hazard of the cause at j * survival at j)) * dt\<close>, all in float64
  arithmetic.
\<close>

theorem hazard_integrator_formulas:
  assumes "2 \<le> length ds" and "\<forall>d \<in> set ds. d ''t'' = None \<and> kwarg d ''scale'' 1 \<noteq> 0"
    and "2 \<le> length grid"
  shows "\<exists>cv. hazard_integrator ds grid = Inr cv \<and>
           collect (map (weibull_hazard_kw grid) ds) = Inr (all_hazards cv) \<and>
           length (any_event_survival cv) = length grid \<and>
           length (theoretical_cif cv) = length ds \<and>
           (\<forall>k<length grid.
              any_event_survival cv ! k
                = spec_survival (all_hazards cv) (overflow (grid ! 1 - grid ! 0)) k) \<and>
           (\<forall>i<length ds.
              length (theoretical_cif cv ! i) = length grid \<and>
              (\<forall>k<length grid.
                 theoretical_cif cv ! i ! k
                   = spec_cif (all_hazards cv ! i) (any_event_survival cv)
                       (overflow (grid ! 1 - grid ! 0)) k))"
proof -
  from hazards_succeed [OF assms(2)] obtain hs where
    hs: "collect (map (weibull_hazard_kw grid) ds) = Inr hs" ..
  from hazard_integrator_unfold [OF hs assms(1,3)] obtain cv where
    cv: "hazard_integrator ds grid = Inr cv" by blast
  note p = hazard_integrator_pointwise [OF cv hs assms(1,3)]
  from cv hs p show ?thesis by auto
qed

theorem hazard_integrator_formulas_witness:
  "\<exists>cv. hazard_integrator two_causes [0, 1, 2] = Inr cv \<and>
     any_event_survival cv ! 2 = spec_survival (all_hazards cv) (Finite 1) 2 \<and>
     theoretical_cif cv ! 1 ! 2
       = spec_cif (all_hazards cv ! 1) (any_event_survival cv) (Finite 1) 2"
proof -
  have a: "2 \<le> length two_causes" by (simp add: two_causes_def)
  have b: "\<forall>d \<in> set two_causes. d ''t'' = None \<and> kwarg d ''scale'' 1 \<noteq> 0"
    by (simp add: two_causes_def kwarg_def)
  have c: "2 \<le> length [0, 1, 2::real]" by simp
  from hazard_integrator_formulas [OF a b c] show ?thesis
    by (auto simp: two_causes_length overflow_small)
qed

lemma one_cause_raises:
  assumes "2 \<le> length grid"
  shows "hazard_integrator one_cause grid = Inl TypeError"
proof -
  have "\<forall>d \<in> set one_cause. d ''t'' = None \<and> kwarg d ''scale'' 1 \<noteq> 0"
    by (simp add: one_cause_def kwarg_def)
  from hazards_succeed [OF this] obtain hs where
    "collect (map (weibull_hazard_kw grid) one_cause) = Inr hs" ..
  from hazard_integrator_single [OF this _ assms] show ?thesis
    by (simp add: one_cause_def)
qed

text \<open>
  A list of one cause is a list of causes for which the integrator computes no curve:
  it raises at line 136.
\<close>

theorem one_cause_is_refused: "hazard_integrator one_cause [0, 1] = Inl TypeError"
  by (rule one_cause_raises) simp

subsection \<open>The run: order of the draws, and what the curves depend on\<close>

lemma weibull_columns_order:
  assumes "weibull_columns rvs n ds g = Inr (cols, g')"
  shows "\<exists>gs. length gs = Suc (length ds) \<and> length cols = length ds \<and>
           gs ! 0 = g \<and> gs ! length ds = g' \<and>
           (\<forall>k<length ds. \<exists>shape scale.
              (ds ! k) ''shape'' = Some shape \<and> (ds ! k) ''scale'' = Some scale \<and>
              rvs shape scale n (gs ! k) = Inr (cols ! k, gs ! Suc k))"
  using assms
proof (induction ds arbitrary: g cols)
  case Nil
  then show ?case by (intro exI [of _ "[g]"]) simp
next
  case (Cons d ds)
  from Cons.prems obtain shape scale col g1 cols' where
    sh: "d ''shape'' = Some shape" and sc: "d ''scale'' = Some scale" and
    dr: "rvs shape scale n g = Inr (col, g1)" and
    rest: "weibull_columns rvs n ds g1 = Inr (cols', g')" and
    cols: "cols = col # cols'"
    by (auto split: option.splits sum.splits prod.splits)
  from Cons.IH [OF rest] obtain gs where
    gs: "length gs = Suc (length ds)" "length cols' = length ds" "gs ! 0 = g1"
      "gs ! length ds = g'" and
    step: "\<forall>k<length ds. \<exists>shape scale.
              (ds ! k) ''shape'' = Some shape \<and> (ds ! k) ''scale'' = Some scale \<and>
              rvs shape scale n (gs ! k) = Inr (cols' ! k, gs ! Suc k)"
    by blast
  have "\<forall>k<length (d # ds). \<exists>shape scale.
              ((d # ds) ! k) ''shape'' = Some shape \<and> ((d # ds) ! k) ''scale'' = Some scale \<and>
              rvs shape scale n ((g # gs) ! k) = Inr (cols ! k, (g # gs) ! Suc k)"
  proof (intro allI impI)
    fix k assume k: "k < length (d # ds)"
    show "\<exists>shape scale.
              ((d # ds) ! k) ''shape'' = Some shape \<and> ((d # ds) ! k) ''scale'' = Some scale \<and>
              rvs shape scale n ((g # gs) ! k) = Inr (cols ! k, (g # gs) ! Suc k)"
    proof (cases k)
      case 0
      with sh sc dr cols gs show ?thesis by simp
    next
      case (Suc k')
      with k step cols show ?thesis by simp
    qed
  qed
  with gs cols show ?case by (intro exI [of _ "g # gs"]) simp
qed

lemma np_concatenate_axis1_rows:
  assumes "np_concatenate_axis1 cols = Inr m"
  shows "cols \<noteq> [] \<and> length m = length (hd cols) \<and>
         (\<forall>i<length m. m ! i = map (\<lambda>col. col ! i) cols)"
  using assms by (auto simp: np_concatenate_axis1_def split: list.splits if_splits)

lemma y_uncensored_rows: "y_uncensored n m = Inr yu \<Longrightarrow> length m = n"
  by (auto simp: y_uncensored_def split: sum.splits if_splits)

lemma run_parts:
  assumes "run default_rng rvs uniform seed n ds tmax num high = Inr (r, shown, cv)"
  shows "\<exists>cols g1. weibull_columns rvs n ds (default_rng seed) = Inr (cols, g1) \<and>
           np_concatenate_axis1 cols = Inr (latent r) \<and>
           y_uncensored n (latent r) = Inr (uncensored r) \<and>
           uniform 0 high n g1 = Inr (censoring r, rng_state r) \<and>
           y_censored (censoring r) (uncensored r) = Inr (censored r) \<and>
           hazard_integrator ds (linspace 0 tmax num) = Inr cv"
  using assms
  by (auto simp: run_def simulate_def event_times_def censoring_times_def
        plot_cumulative_incidence_functions_def split: sum.splits prod.splits if_splits)

lemma counter_run_succeeds:
  "\<exists>r. run counter_rng counter_rvs counter_uniform 0 2 two_causes 1 2 high = Inr r"
proof -
  from counter_simulate_succeeds obtain ds where
    ds: "simulate counter_rng counter_rvs counter_uniform 0 2 two_causes high = Inr ds" ..
  have "2 \<le> length two_causes" by (simp add: two_causes_length)
  moreover have "\<forall>d \<in> set two_causes. d ''t'' = None \<and> kwarg d ''scale'' 1 \<noteq> 0"
    by (simp add: two_causes_def kwarg_def)
  moreover have "2 \<le> length (linspace 0 1 2)" by (simp add: length_linspace)
  ultimately obtain cv where "hazard_integrator two_causes (linspace 0 1 2) = Inr cv"
    using hazard_integrator_succeeds by blast
  with ds show ?thesis
    by (simp add: run_def plot_cumulative_incidence_functions_def)
qed

text \<open>
  C7: the theoretical hazard, survival and cumulative incidence curves of a run are those
  of the hazard integrator on the list of causes and the fine time grid; two runs on the
  same causes and grid give the same curves, whatever their censoring bounds (and their
  seeds, sample counts and sampling primitives).
\<close>

theorem curves_independent_of_censoring:
  assumes "run default_rng1 rvs1 uniform1 seed1 n1 ds tmax num high1 = Inr (r1, shown1, cv1)"
    and "run default_rng2 rvs2 uniform2 seed2 n2 ds tmax num high2 = Inr (r2, shown2, cv2)"
  shows "cv1 = cv2 \<and> hazard_integrator ds (linspace 0 tmax num) = Inr cv1"
  using run_parts [OF assms(1)] run_parts [OF assms(2)] by auto

theorem curves_independent_of_censoring_witness:
  "\<exists>r1 shown1 cv1 r2 shown2 cv2.
     run counter_rng counter_rvs counter_uniform 0 2
       two_causes 1 2 2 = Inr (r1, shown1, cv1) \<and>
     run counter_rng counter_rvs counter_uniform 0 2
       two_causes 1 2 5 = Inr (r2, shown2, cv2) \<and>
     cv1 = cv2"
proof -
  obtain r1 shown1 cv1 where a: "run counter_rng counter_rvs counter_uniform 0 2
       two_causes 1 2 2 = Inr (r1, shown1, cv1)"
    using counter_run_succeeds [of 2] by (metis prod_cases3)
  obtain r2 shown2 cv2 where b: "run counter_rng counter_rvs counter_uniform 0 2
       two_causes 1 2 5 = Inr (r2, shown2, cv2)"
    using counter_run_succeeds [of 5] by (metis prod_cases3)
  from curves_independent_of_censoring [OF a b] a b show ?thesis by blast
qed

text \<open>
  C8: two runs with the same seed, sample count, causes, grid and censoring bound return
  the same latent matrix, the same observed records and the same curves. The run threads
  one generator: the generator of the seed draws the columns of the latent matrix in the
  order of the causes, each column from the generator the previous one left, and the
  censoring times are drawn from the generator the last column left.
\<close>

theorem run_reproducible:
  assumes "run default_rng rvs uniform seed n ds tmax num high = Inr (r, shown, cv)"
    and "run default_rng rvs uniform seed n ds tmax num high = Inr (r', shown', cv')"
  shows "latent r' = latent r \<and> censored r' = censored r \<and> cv' = cv \<and>
         (\<exists>cols gs. length gs = Suc (length ds) \<and> length cols = length ds \<and>
           gs ! 0 = default_rng seed \<and>
           (\<forall>k<length ds. \<exists>shape scale.
              (ds ! k) ''shape'' = Some shape \<and> (ds ! k) ''scale'' = Some scale \<and>
              rvs shape scale n (gs ! k) = Inr (cols ! k, gs ! Suc k)) \<and>
           length (latent r) = n \<and>
           (\<forall>i<n. latent r ! i = map (\<lambda>col. col ! i) cols) \<and>
           uniform 0 high n (gs ! length ds) = Inr (censoring r, rng_state r) \<and>
           y_uncensored n (latent r) = Inr (uncensored r) \<and>
           y_censored (censoring r) (uncensored r) = Inr (censored r) \<and>
           hazard_integrator ds (linspace 0 tmax num) = Inr cv)"
proof -
  from assms have same: "r' = r" "cv' = cv" by simp_all
  from run_parts [OF assms(1)] obtain cols g1 where
    w: "weibull_columns rvs n ds (default_rng seed) = Inr (cols, g1)" and
    m: "np_concatenate_axis1 cols = Inr (latent r)" and
    yu: "y_uncensored n (latent r) = Inr (uncensored r)" and
    u: "uniform 0 high n g1 = Inr (censoring r, rng_state r)" and
    yc: "y_censored (censoring r) (uncensored r) = Inr (censored r)" and
    hi: "hazard_integrator ds (linspace 0 tmax num) = Inr cv"
    by blast
  from weibull_columns_order [OF w] obtain gs where
    gs: "length gs = Suc (length ds)" "length cols = length ds" "gs ! 0 = default_rng seed"
      "gs ! length ds = g1" and
    step: "\<forall>k<length ds. \<exists>shape scale.
              (ds ! k) ''shape'' = Some shape \<and> (ds ! k) ''scale'' = Some scale \<and>
              rvs shape scale n (gs ! k) = Inr (cols ! k, gs ! Suc k)"
    by blast
  have len: "length (latent r) = n" using yu by (rule y_uncensored_rows)
  have rows: "\<forall>i<n. latent r ! i = map (\<lambda>col. col ! i) cols"
    using np_concatenate_axis1_rows [OF m] len by simp
  from gs step len rows u yu yc hi have "\<exists>cols gs. length gs = Suc (length ds) \<and>
           length cols = length ds \<and> gs ! 0 = default_rng seed \<and>
           (\<forall>k<length ds. \<exists>shape scale.
              (ds ! k) ''shape'' = Some shape \<and> (ds ! k) ''scale'' = Some scale \<and>
              rvs shape scale n (gs ! k) = Inr (cols ! k, gs ! Suc k)) \<and>
           length (latent r) = n \<and>
           (\<forall>i<n. latent r ! i = map (\<lambda>col. col ! i) cols) \<and>
           uniform 0 high n (gs ! length ds) = Inr (censoring r, rng_state r) \<and>
           y_uncensored n (latent r) = Inr (uncensored r) \<and>
           y_censored (censoring r) (uncensored r) = Inr (censored r) \<and>
           hazard_integrator ds (linspace 0 tmax num) = Inr cv"
    by blast
  with same show ?thesis by simp
qed

theorem run_reproducible_witness:
  "\<exists>r shown cv.
     run counter_rng counter_rvs counter_uniform 0 2 two_causes 1 2 5 = Inr (r, shown, cv) \<and>
     counter_uniform 0 5 2 4 = Inr (censoring r, rng_state r)"
proof -
  obtain r shown cv where a: "run counter_rng counter_rvs counter_uniform 0 2
       two_causes 1 2 5 = Inr (r, shown, cv)"
    using counter_run_succeeds [of 5] by (metis prod_cases3)
  from run_reproducible [OF a a] obtain cols gs where
    g0: "gs ! 0 = counter_rng 0" and
    step: "\<forall>k<length two_causes. \<exists>shape scale.
              (two_causes ! k) ''shape'' = Some shape \<and>
              (two_causes ! k) ''scale'' = Some scale \<and>
              counter_rvs shape scale 2 (gs ! k) = Inr (cols ! k, gs ! Suc k)" and
    u: "counter_uniform 0 5 2 (gs ! length two_causes) = Inr (censoring r, rng_state r)"
    by blast
  have "0 < length two_causes" and "Suc 0 < length two_causes"
    by (simp_all add: two_causes_length)
  with step obtain col0 col1 sh0 sc0 sh1 sc1 where
    "counter_rvs sh0 sc0 2 (gs ! 0) = Inr (col0, gs ! Suc 0)" and
    "counter_rvs sh1 sc1 2 (gs ! Suc 0) = Inr (col1, gs ! Suc (Suc 0))"
    by blast
  then have "gs ! Suc 0 = gs ! 0 + 2" and "gs ! Suc (Suc 0) = gs ! Suc 0 + 2"
    by (auto dest: counter_rvs_state)
  with g0 have "gs ! length two_causes = 4"
    by (simp add: two_causes_length counter_rng_def numeral_2_eq_2)
  with u a show ?thesis by auto
qed

subsection \<open>The curves over the reals\<close>

















subsection \<open>Monotone curves\<close>












subsection \<open>The competing-risks identity\<close>











subsection \<open>A hazard that overflows\<close>





subsection \<open>The inputs of the script are in range\<close>

text \<open>
  On the three causes and the fine grid of the script every hazard is at most 1, and no
  operation of the integration overflows.
\<close>

lemma fine_grid_points:
  assumes "t \<in> set (linspace 0 t_max 100000)"
  shows "0 \<le> t \<and> t \<le> 3000 \<and> (t = 0 \<or> 3000 / 99999 \<le> t)"
proof -
  from assms obtain i :: nat where i: "i < 100000" and t: "t = real i * (3000 / 99999)"
    by (auto simp: linspace_def t_max_def base_scale_def)
  have "real i \<le> 99999" using i by simp
  then have "real i * (3000 / 99999) \<le> 99999 * (3000 / 99999)"
    by (intro mult_right_mono) simp_all
  then have up: "t \<le> 3000" by (simp add: t)
  show ?thesis
  proof (cases "i = 0")
    case True
    with t up show ?thesis by simp
  next
    case False
    then have "1 \<le> real i" by simp
    then have "1 * (3000 / 99999) \<le> real i * (3000 / 99999)"
      by (intro mult_right_mono) simp_all
    with t up show ?thesis by simp
  qed
qed

lemma inverse_root_bound:
  fixes x :: real
  assumes "1 / 2 ^ 20 \<le> x"
  shows "x powr (- (1/2)) \<le> 2 ^ 10"
proof -
  have x0: "0 < x" using assms by (rule less_le_trans [rotated]) simp
  have "(1 / 2 ^ 10)\<^sup>2 \<le> x" using assms by (simp add: power2_eq_square)
  then have "1 / 2 ^ 10 \<le> sqrt x" by (rule real_le_rsqrt)
  moreover have "0 < sqrt x" using x0 by simp
  ultimately have "1 / sqrt x \<le> 2 ^ 10"
    by (simp add: field_simps)
  moreover have "x powr (- (1/2)) = 1 / sqrt x"
    using x0 by (simp add: powr_minus powr_half_sqrt field_simps)
  ultimately show ?thesis by simp
qed


lemma sum_list_upt_bound:
  fixes f :: "nat \<Rightarrow> real"
  assumes "\<forall>j<n. f j \<le> M"
  shows "(\<Sum>j\<leftarrow>[0..<n]. f j) \<le> real n * M"
  using assms by (induction n) (auto simp: algebra_simps)

lemma script_hazards_in_range:
  assumes "d \<in> set distributions" and "t \<in> set (linspace 0 t_max 100000)"
  shows "formula_in_range (kwarg d ''shape'' 1) (kwarg d ''scale'' 1) t \<and> cause_hazard d t \<le> 1"
proof -
  from fine_grid_points [OF assms(2)] have t0: "0 \<le> t" and t1: "t \<le> 3000" and
    tc: "t = 0 \<or> 3000 / 99999 \<le> t" by simp_all
  from assms(1) consider
    (a) "kwarg d ''shape'' 1 = 1/2" "kwarg d ''scale'' 1 = 10000" |
    (b) "kwarg d ''shape'' 1 = 1" "kwarg d ''scale'' 1 = 3000" |
    (c) "kwarg d ''shape'' 1 = 5" "kwarg d ''scale'' 1 = 2000"
    by (auto simp: distributions_def base_scale_def kwarg_def)
  then show ?thesis
  proof cases
    case a
    have pw: "(t / 10000) powr (- (1/2)) \<le> 2 ^ 10"
    proof (cases "t = 0")
      case True
      then show ?thesis by simp
    next
      case False
      with tc have "3000 / 99999 \<le> t" by simp
      then have "1 / 2 ^ 20 \<le> t / 10000" by simp
      then show ?thesis by (rule inverse_root_bound)
    qed
    have pw0: "0 \<le> (t / 10000) powr (- (1/2))" by simp
    have "(1/2) / 10000 * (t / 10000) powr (- (1/2)) \<le> (1/2) / 10000 * 2 ^ 10"
      using pw by (intro mult_left_mono) simp_all
    then have pr: "(1/2) / 10000 * (t / 10000) powr (- (1/2)) \<le> 1" by simp
    have "formula_in_range (1/2) 10000 t"
      unfolding formula_in_range_def
      using t1 pw pr by (intro conjI small_in_range) simp_all
    moreover have "cause_hazard d t \<le> 1"
      using pr by (simp add: cause_hazard_def spec_weibull_hazard_def a)
    ultimately show ?thesis by (simp add: a)
  next
    case b
    have pw: "(t / 3000) powr 0 \<le> 1" by simp
    have "formula_in_range 1 3000 t"
      unfolding formula_in_range_def
      using t1 by (intro conjI small_in_range) simp_all
    moreover have "cause_hazard d t \<le> 1"
      by (simp add: cause_hazard_def spec_weibull_hazard_def b)
    ultimately show ?thesis by (simp add: b)
  next
    case c
    have "(t / 2000) powr 4 \<le> (3 / 2) powr 4"
      using t0 t1 by (intro powr_mono2) simp_all
    moreover have "(3 / 2 :: real) powr 4 \<le> 8" by (simp add: power4_eq_xxxx)
    ultimately have pw: "(t / 2000) powr 4 \<le> 8" by (rule order_trans)
    have "5 / 2000 * (t / 2000) powr 4 \<le> 5 / 2000 * 8"
      using pw by (intro mult_left_mono) simp_all
    then have pr: "5 / 2000 * (t / 2000) powr 4 \<le> 1" by simp
    have "formula_in_range 5 2000 t"
      unfolding formula_in_range_def
      using t1 pw pr by (intro conjI small_in_range) simp_all
    moreover have "cause_hazard d t \<le> 1"
      using pr by (simp add: cause_hazard_def spec_weibull_hazard_def c)
    ultimately show ?thesis by (simp add: c)
  qed
qed

lemma script_no_overflow: "no_overflow distributions (linspace 0 t_max 100000)"
proof -
  let ?grid = "linspace 0 t_max 100000"
  have len: "length ?grid = 100000" by (rule length_linspace)
  have r: "list_all (\<lambda>d. list_all (formula_in_range (kwarg d ''shape'' 1) (kwarg d ''scale'' 1))
             ?grid) distributions"
    using script_hazards_in_range by (simp add: list_all_iff)
  have g1: "?grid ! 1 = 3000 / 99999" and g0: "?grid ! 0 = 0"
    by (simp_all add: linspace_def t_max_def base_scale_def)
  have dt: "?grid ! 1 - ?grid ! 0 < overflow_threshold"
    unfolding g1 g0 by (intro small_in_range) simp
  have mx: "max 1 (?grid ! 1 - ?grid ! 0) = 1" unfolding g1 g0 by simp
  have "total_hazard distributions ?grid j \<le> 3" if "j < length ?grid" for j
  proof -
    from that have "?grid ! j \<in> set ?grid" by simp
    then have "\<forall>d \<in> set distributions. cause_hazard d (?grid ! j) \<le> 1"
      using script_hazards_in_range by blast
    then have "(\<Sum>d\<leftarrow>distributions. cause_hazard d (?grid ! j))
                 \<le> (\<Sum>d\<leftarrow>distributions. 1)"
      by (intro sum_list_mono) simp
    then show ?thesis by (simp add: total_hazard_def distributions_def)
  qed
  then have "(\<Sum>j\<leftarrow>[0..<length ?grid]. total_hazard distributions ?grid j)
               \<le> real (length ?grid) * 3"
    by (intro sum_list_upt_bound) simp
  then have "(\<Sum>j\<leftarrow>[0..<length ?grid]. total_hazard distributions ?grid j) \<le> 2 ^ 64"
    by (simp add: len)
  then have T: "(\<Sum>j\<leftarrow>[0..<length ?grid]. total_hazard distributions ?grid j) * 1
                  < overflow_threshold"
    by (intro small_in_range) simp
  from r dt T show ?thesis unfolding no_overflow_def mx by simp
qed

end
